theory Spec2Isabelle
  imports Complex_Main
begin

section \<open>Frames, rolls and the scorer\<close>

text \<open>
  A frame is the array of pin counts of its rolls (\<open>type Frame = number[]\<close>). The
  parser and the candidate generators only produce integers between 0 and 10, and the
  scorer only adds them, so a pin count is an \<open>int\<close>. A solution is the triple
  \<open>[f8, f9, f10]\<close> pushed by the search.
\<close>

type_synonym frame = "int list"
type_synonym solution = "frame \<times> frame \<times> frame"

text \<open>
  \<open>rolls[i]\<close> is \<open>undefined\<close> past the end of the array, and \<open>v ?? 0\<close> replaces
  \<open>undefined\<close> by 0. The array read returns an option, \<open>None\<close> for \<open>undefined\<close>.
\<close>

definition lookup :: "int list \<Rightarrow> nat \<Rightarrow> int option" where
  "lookup rolls i = (if i < length rolls then Some (rolls ! i) else None)"

definition nullish :: "int option \<Rightarrow> int \<Rightarrow> int" where
  "nullish v d = (case v of None \<Rightarrow> d | Some x \<Rightarrow> x)"

text \<open>
  The body of the scoring loop of \<open>scoreGame\<close>, for the frame number \<open>frame\<close>, on the
  loop state \<open>(rollIndex, score)\<close>. The frame-10 block sits inside the branch taken
  when the first roll is not 10, as in the source.
\<close>

definition frameBody :: "int list \<Rightarrow> nat \<Rightarrow> nat \<times> int \<Rightarrow> nat \<times> int" where
  "frameBody rolls frame st =
     (case st of (rollIndex, score) \<Rightarrow>
        let first = nullish (lookup rolls rollIndex) 0 in
        if first = 10 then
          (rollIndex + 1,
           score + (10 + nullish (lookup rolls (rollIndex + 1)) 0
                       + nullish (lookup rolls (rollIndex + 2)) 0))
        else
          let a = first;
              b = nullish (lookup rolls (rollIndex + 1)) 0;
              sum = a + b;
              score1 = (if sum = 10
                        then score + (10 + nullish (lookup rolls (rollIndex + 2)) 0)
                        else score + sum);
              rollIndex1 = rollIndex + 2
          in
            if frame = 10 then
              (if a = 10 then
                 (rollIndex1 + 2,
                  score1 + (nullish (lookup rolls rollIndex1) 0
                            + nullish (lookup rolls (rollIndex1 + 1)) 0))
               else if sum = 10 then
                 (rollIndex1 + 1, score1 + nullish (lookup rolls rollIndex1) 0)
               else (rollIndex1, score1))
            else (rollIndex1, score1))"

text \<open>
  \<open>for (let frame = 1; frame <= 10; frame++)\<close>: the loop returns the value of
  \<open>frame\<close> at which it stops together with the final state.
\<close>

function scoreLoop :: "int list \<Rightarrow> nat \<Rightarrow> nat \<times> int \<Rightarrow> nat \<times> nat \<times> int" where
  "scoreLoop rolls frame st =
     (if frame \<le> 10 then scoreLoop rolls (frame + 1) (frameBody rolls frame st)
      else (frame, st))"
  by pat_completeness auto
termination
  by (relation "measure (\<lambda>(rolls, frame, st). 11 - frame)") auto

definition scoreGame :: "frame list \<Rightarrow> int" where
  "scoreGame frames =
     (let rolls = concat frames in
      case scoreLoop rolls 1 (0, 0) of (frame, rollIndex, score) \<Rightarrow> score)"

section \<open>Candidate generators\<close>

definition generateNormalFrameCandidates_NoFilter :: "frame list" where
  "generateNormalFrameCandidates_NoFilter =
     [[10]]
     @ map (\<lambda>a. [a, 10 - a]) [0..9]
     @ concat (map (\<lambda>a. map (\<lambda>b. [a, b]) [0..9 - a]) [0..9])"

definition generateTenthFrameCandidates_NoFilter :: "frame list" where
  "generateTenthFrameCandidates_NoFilter =
     concat (map (\<lambda>a. map (\<lambda>b. [a, b]) [0..9 - a]) [0..9])
     @ concat (map (\<lambda>a. map (\<lambda>c. [a, 10 - a, c]) [0..10]) [0..9])
     @ concat (map (\<lambda>b. if b = 10 then map (\<lambda>c. [10, b, c]) [0..10]
                          else map (\<lambda>c. [10, b, c]) [0..10 - b]) [0..10])"

definition generateNormalFrameCandidates_FilterFirstZero :: "frame list" where
  "generateNormalFrameCandidates_FilterFirstZero =
     [[10]]
     @ map (\<lambda>a. [a, 10 - a]) [1..9]
     @ concat (map (\<lambda>a. map (\<lambda>b. [a, b]) [0..9 - a]) [1..9])"

definition generateTenthFrameCandidates_FilterFirstZero :: "frame list" where
  "generateTenthFrameCandidates_FilterFirstZero =
     concat (map (\<lambda>a. map (\<lambda>b. [a, b]) [0..9 - a]) [1..9])
     @ concat (map (\<lambda>a. map (\<lambda>c. [a, 10 - a, c]) [0..10]) [1..9])
     @ concat (map (\<lambda>b. if b = 10 then map (\<lambda>c. [10, b, c]) [0..10]
                          else map (\<lambda>c. [10, b, c]) [0..10 - b]) [0..10])"

definition NORMAL_CAND_FILTER :: "frame list" where
  "NORMAL_CAND_FILTER = generateNormalFrameCandidates_FilterFirstZero"

definition TENTH_CAND_FILTER :: "frame list" where
  "TENTH_CAND_FILTER = generateTenthFrameCandidates_FilterFirstZero"

section \<open>Realism ranking\<close>

text \<open>
  The weights include 0.5, and every product below is a small multiple of one half, which
  the source's floating-point arithmetic computes exactly: the realism score is a
  rational number.
\<close>

record weights =
  spareBase :: rat
  spareFirstBallMul :: rat
  strikePenalty :: rat
  consecutiveStrikePenalty :: rat
  openFirstBallMul :: rat
  openSecondBallMul :: rat
  gutterFirstPenalty :: rat
  tenthNiceBonus :: rat
  tripleXPenalty :: rat

definition WEIGHTS :: weights where
  "WEIGHTS = \<lparr> spareBase = 5, spareFirstBallMul = 2, strikePenalty = - 3,
               consecutiveStrikePenalty = - 4, openFirstBallMul = 1,
               openSecondBallMul = 1 / 2, gutterFirstPenalty = - 8,
               tenthNiceBonus = 2, tripleXPenalty = - 2 \<rparr>"

text \<open>
  The frame predicates test the length first (\<open>&&\<close> stops at the first false
  operand), so every indexed read below them is in range.
\<close>

definition isStrikeFrame :: "frame \<Rightarrow> bool" where
  "isStrikeFrame f = (length f = 1 \<and> f ! 0 = 10)"

definition isSpareFrame :: "frame \<Rightarrow> bool" where
  "isSpareFrame f = (length f = 2 \<and> f ! 0 + f ! 1 = 10 \<and> f ! 0 \<noteq> 10)"

definition isOpenFrame :: "frame \<Rightarrow> bool" where
  "isOpenFrame f = (length f = 2 \<and> f ! 0 + f ! 1 < 10)"

definition isTenthLikeStrike :: "frame \<Rightarrow> bool" where
  "isTenthLikeStrike f = (length f = 3 \<and> f ! 0 = 10)"

definition isTenthLikeSpare :: "frame \<Rightarrow> bool" where
  "isTenthLikeSpare f = (length f = 3 \<and> f ! 0 + f ! 1 = 10 \<and> f ! 0 \<noteq> 10)"

text \<open>The body of the loop over \<open>mids = [f8, f9]\<close>, at index \<open>i\<close>.\<close>

definition midsBody :: "frame list \<Rightarrow> nat \<Rightarrow> rat \<Rightarrow> rat" where
  "midsBody mids i s =
     (let f = mids ! i in
      if isStrikeFrame f then
        (let s1 = s + strikePenalty WEIGHTS in
         if i > 0 \<and> isStrikeFrame (mids ! (i - 1))
         then s1 + consecutiveStrikePenalty WEIGHTS else s1)
      else if isSpareFrame f then
        (let a = f ! 0 in s + (spareBase WEIGHTS + of_int a * spareFirstBallMul WEIGHTS))
      else if isOpenFrame f then
        (let a = f ! 0; b = f ! 1;
             s1 = (if a = 0 then s + gutterFirstPenalty WEIGHTS else s)
         in s1 + (of_int a * openFirstBallMul WEIGHTS + of_int b * openSecondBallMul WEIGHTS))
      else s)"

function midsLoop :: "frame list \<Rightarrow> nat \<Rightarrow> rat \<Rightarrow> rat" where
  "midsLoop mids i s =
     (if i < length mids then midsLoop mids (i + 1) (midsBody mids i s) else s)"
  by pat_completeness auto
termination
  by (relation "measure (\<lambda>(mids, i, s). length mids - i)") auto

text \<open>The block of \<open>scoreRealism\<close> on the tenth frame \<open>t\<close>.\<close>

definition tenthRealism :: "frame \<Rightarrow> rat \<Rightarrow> rat" where
  "tenthRealism t s =
     (if isTenthLikeStrike t then
        (let b = t ! 1; c = t ! 2;
             s1 = (if b = 10 \<and> c = 10 then s + tripleXPenalty WEIGHTS else s)
         in if b \<noteq> 10 \<and> b + c = 10 then s1 + tenthNiceBonus WEIGHTS else s1)
      else if isTenthLikeSpare t then
        (let a = t ! 0 in s + (spareBase WEIGHTS + of_int a * spareFirstBallMul WEIGHTS))
      else if length t = 2 then
        (let a = t ! 0; b = t ! 1;
             s1 = (if a = 0 then s + gutterFirstPenalty WEIGHTS else s)
         in s1 + (of_int a * openFirstBallMul WEIGHTS + of_int b * openSecondBallMul WEIGHTS))
      else s)"

definition scoreRealism :: "solution \<Rightarrow> rat" where
  "scoreRealism frames =
     (case frames of (f8, f9, f10) \<Rightarrow>
        let s = midsLoop [f8, f9] 0 0;
            s = tenthRealism f10 s
        in if isStrikeFrame f8 \<and> isStrikeFrame f9
           then s + consecutiveStrikePenalty WEIGHTS else s)"

section \<open>Completion search\<close>

text \<open>
  The state of the page that \<open>handleCalculate\<close> reads and writes. \<open>parsedFirst10\<close>
  is the memoised result of parsing the ten input fields, an empty array standing for a
  field that does not parse. \<open>limit\<close> is the output cap, an integer.
\<close>

record count_state =
  target :: int
  parsedFirst10 :: "frame list"
  solutions :: "solution list"
  previewScore :: "int option"
  limit :: int
  preferRealism :: bool
  forbidFirstZero :: bool

datatype error = RangeError

text \<open>
  The three nested \<open>for ... of\<close> loops with the labelled \<open>break outer\<close>. Each loop
  returns the array \<open>sols\<close> and whether \<open>break outer\<close> was executed; an outer loop
  stops as soon as an inner one reports the break.
\<close>

fun loop10 ::
  "frame list \<Rightarrow> int \<Rightarrow> int \<Rightarrow> frame \<Rightarrow> frame \<Rightarrow> frame list \<Rightarrow> solution list
   \<Rightarrow> solution list \<times> bool" where
  "loop10 prefix tgt lmt f8 f9 [] sols = (sols, False)"
| "loop10 prefix tgt lmt f8 f9 (f10 # rest) sols =
     (let game = prefix @ [f8, f9, f10];
          sc = scoreGame game
      in if sc = tgt then
           (let sols1 = sols @ [(f8, f9, f10)] in
            if int (length sols1) \<ge> lmt * 3 then (sols1, True)
            else loop10 prefix tgt lmt f8 f9 rest sols1)
         else loop10 prefix tgt lmt f8 f9 rest sols)"

fun loop9 ::
  "frame list \<Rightarrow> int \<Rightarrow> int \<Rightarrow> frame \<Rightarrow> frame list \<Rightarrow> frame list \<Rightarrow> solution list
   \<Rightarrow> solution list \<times> bool" where
  "loop9 prefix tgt lmt f8 [] f10List sols = (sols, False)"
| "loop9 prefix tgt lmt f8 (f9 # rest) f10List sols =
     (case loop10 prefix tgt lmt f8 f9 f10List sols of
        (sols1, True) \<Rightarrow> (sols1, True)
      | (sols1, False) \<Rightarrow> loop9 prefix tgt lmt f8 rest f10List sols1)"

fun loop8 ::
  "frame list \<Rightarrow> int \<Rightarrow> int \<Rightarrow> frame list \<Rightarrow> frame list \<Rightarrow> frame list \<Rightarrow> solution list
   \<Rightarrow> solution list \<times> bool" where
  "loop8 prefix tgt lmt [] f9List f10List sols = (sols, False)"
| "loop8 prefix tgt lmt (f8 # rest) f9List f10List sols =
     (case loop9 prefix tgt lmt f8 f9List f10List sols of
        (sols1, True) \<Rightarrow> (sols1, True)
      | (sols1, False) \<Rightarrow> loop8 prefix tgt lmt rest f9List f10List sols1)"

text \<open>\<open>fixed[i]\<close>: \<open>undefined\<close> past the end of the array, which is falsy like \<open>null\<close>.\<close>

definition fixedAt :: "frame option list \<Rightarrow> nat \<Rightarrow> frame option" where
  "fixedAt fixed i = (if i < length fixed then fixed ! i else None)"

definition fixedOf :: "count_state \<Rightarrow> frame option list" where
  "fixedOf st = map (\<lambda>fr. if length fr \<noteq> 0 then Some fr else None) (parsedFirst10 st)"

definition prefixOf :: "count_state \<Rightarrow> frame list" where
  "prefixOf st = map (\<lambda>fr. case fr of None \<Rightarrow> [] | Some f \<Rightarrow> f) (take 7 (fixedOf st))"

definition NORMAL_POOL :: "count_state \<Rightarrow> frame list" where
  "NORMAL_POOL st =
     (if forbidFirstZero st then NORMAL_CAND_FILTER else generateNormalFrameCandidates_NoFilter)"

definition TENTH_POOL :: "count_state \<Rightarrow> frame list" where
  "TENTH_POOL st =
     (if forbidFirstZero st then TENTH_CAND_FILTER else generateTenthFrameCandidates_NoFilter)"

definition f8List :: "count_state \<Rightarrow> frame list" where
  "f8List st = (case fixedAt (fixedOf st) 7 of Some f \<Rightarrow> [f] | None \<Rightarrow> NORMAL_POOL st)"

definition f9List :: "count_state \<Rightarrow> frame list" where
  "f9List st = (case fixedAt (fixedOf st) 8 of Some f \<Rightarrow> [f] | None \<Rightarrow> NORMAL_POOL st)"

definition f10List :: "count_state \<Rightarrow> frame list" where
  "f10List st = (case fixedAt (fixedOf st) 9 of Some f \<Rightarrow> [f] | None \<Rightarrow> TENTH_POOL st)"

text \<open>
  The enumeration of \<open>handleCalculate\<close>: \<open>sols\<close> and the break flag when the labelled
  loops are left.
\<close>

definition enumerate_sols :: "count_state \<Rightarrow> solution list \<times> bool" where
  "enumerate_sols st =
     loop8 (prefixOf st) (target st) (limit st) (f8List st) (f9List st) (f10List st) []"

text \<open>The fallback block after the loops, for three fixed frames and no solution.\<close>

definition fallback :: "count_state \<Rightarrow> solution list \<Rightarrow> solution list" where
  "fallback st sols =
     (case (fixedAt (fixedOf st) 7, fixedAt (fixedOf st) 8, fixedAt (fixedOf st) 9) of
        (Some f8Fixed, Some f9Fixed, Some f10Fixed) \<Rightarrow>
          if length sols = 0 then
            (let sc = scoreGame (prefixOf st @ [f8Fixed, f9Fixed, f10Fixed]) in
             if sc = target st then sols @ [(f8Fixed, f9Fixed, f10Fixed)] else sols)
          else sols
      | _ \<Rightarrow> sols)"

text \<open>
  \<open>sols.sort((A, B) => scoreRealism(B) - scoreRealism(A))\<close>: \<open>Array.prototype.sort\<close>
  is stable, and the comparator orders by descending realism, so the sort is the stable
  sort on the negated realism score.
\<close>

definition rankSols :: "count_state \<Rightarrow> solution list \<Rightarrow> solution list" where
  "rankSols st sols =
     (if preferRealism st then sort_key (\<lambda>sol. - scoreRealism sol) sols else sols)"

text \<open>
  \<open>if (sols.length > limit) sols.length = limit\<close>: assigning a negative length to an
  array throws a \<open>RangeError\<close>.
\<close>

definition truncateSols :: "count_state \<Rightarrow> solution list \<Rightarrow> error + solution list" where
  "truncateSols st sols =
     (if int (length sols) > limit st then
        (if limit st < 0 then Inl RangeError else Inr (take (nat (limit st)) sols))
      else Inr sols)"

text \<open>The preview score: empty frames count as \<open>[0, 0]\<close>.\<close>

definition preview :: "count_state \<Rightarrow> int" where
  "preview st =
     scoreGame (map (\<lambda>fr. case fr of None \<Rightarrow> [0, 0] | Some f \<Rightarrow> f) (fixedOf st))"

text \<open>
  The sequence of solutions that \<open>handleCalculate\<close> computes and hands to
  \<open>setSolutions\<close>.
\<close>

definition searchSolutions :: "count_state \<Rightarrow> error + solution list" where
  "searchSolutions st =
     truncateSols st (rankSols st (fallback st (fst (enumerate_sols st))))"

text \<open>
  \<open>handleCalculate\<close> on the page state. An exception leaves the handler before
  \<open>setSolutions\<close>; the model then returns the error alone.
\<close>

definition handleCalculate :: "count_state \<Rightarrow> error + count_state" where
  "handleCalculate st =
     (case searchSolutions st of
        Inl e \<Rightarrow> Inl e
      | Inr sols \<Rightarrow> Inr (st\<lparr> previewScore := Some (preview st), solutions := sols \<rparr>))"

section \<open>The frame invariants of the specification\<close>

text \<open>
  The invariants of the data model, as the specification words them. An ordinary frame
  (frames 1 to 9) is the single roll 10 or two rolls between 0 and 10 with sum at most
  10. A tenth frame is a two-roll open (first roll below 10, sum at most 10), a spare
  with one bonus roll, or a strike with two bonus rolls whose sum is at most 10 unless
  the first bonus roll is itself 10.
\<close>

fun validOrdinary :: "frame \<Rightarrow> bool" where
  "validOrdinary [r] = (r = 10)"
| "validOrdinary [a, b] = (0 \<le> a \<and> a \<le> 10 \<and> 0 \<le> b \<and> b \<le> 10 \<and> a + b \<le> 10)"
| "validOrdinary _ = False"

fun validTenth :: "frame \<Rightarrow> bool" where
  "validTenth [a, b] = (0 \<le> a \<and> a < 10 \<and> 0 \<le> b \<and> b \<le> 10 \<and> a + b \<le> 10)"
| "validTenth [a, b, c] =
     (0 \<le> a \<and> a \<le> 10 \<and> 0 \<le> b \<and> b \<le> 10 \<and> 0 \<le> c \<and> c \<le> 10
      \<and> (if a = 10 then (b = 10 \<or> b + c \<le> 10) else a + b = 10))"
| "validTenth _ = False"

definition validGame :: "frame list \<Rightarrow> bool" where
  "validGame frames =
     (length frames = 10 \<and> list_all validOrdinary (butlast frames) \<and> validTenth (last frames))"

text \<open>
  The order in which the nested loops visit the combinations: frame 8 outermost, frame
  10 innermost.
\<close>

definition combos :: "frame list \<Rightarrow> frame list \<Rightarrow> frame list \<Rightarrow> solution list" where
  "combos l8 l9 l10 =
     concat (map (\<lambda>f8. concat (map (\<lambda>f9. map (\<lambda>f10. (f8, f9, f10)) l10) l9)) l8)"

text \<open>
  The test of the innermost loop: the game made of the prefix and the three frames
  scores the target.
\<close>

definition hit :: "frame list \<Rightarrow> int \<Rightarrow> solution \<Rightarrow> bool" where
  "hit prefix tgt sol =
     (case sol of (f8, f9, f10) \<Rightarrow> scoreGame (prefix @ [f8, f9, f10]) = tgt)"

definition matches :: "count_state \<Rightarrow> solution \<Rightarrow> bool" where
  "matches st sol = hit (prefixOf st) (target st) sol"

text \<open>
  The number of recorded solutions at which \<open>sols.length >= limit * 3\<close> first holds
  after a push: the array then has at least one element.
\<close>

definition stopAt :: "int \<Rightarrow> nat" where
  "stopAt lmt = max 1 (nat (lmt * 3))"

text \<open>
  Recording the matching combinations \<open>ms\<close> in order, after \<open>sols\<close>, until \<open>n\<close>
  solutions are recorded: the array and whether the bound was reached.
\<close>

definition collected :: "nat \<Rightarrow> solution list \<Rightarrow> solution list \<Rightarrow> solution list \<times> bool" where
  "collected n sols ms = (sols @ take (n - length sols) ms, n \<le> length sols + length ms)"

text \<open>Every roll is a pin count between 0 and 10.\<close>

definition rollsOK :: "int list \<Rightarrow> bool" where
  "rollsOK rolls = list_all (\<lambda>r. 0 \<le> r \<and> r \<le> 10) rolls"

text \<open>
  What \<open>handleCalculate\<close> is given: ten slots, an empty array for a frame that was
  not entered, each entered frame satisfying the invariant of its position.
\<close>

definition validInput :: "frame list \<Rightarrow> bool" where
  "validInput ps =
     (length ps = 10
      \<and> list_all (\<lambda>f. f = [] \<or> validOrdinary f) (butlast ps)
      \<and> (last ps = [] \<or> validTenth (last ps)))"

text \<open>
  The official ten-pin total of a game, as the specification describes the rules, for
  comparison with \<open>scoreGame\<close>: a strike in frames 1 to 9 scores 10 plus the next two
  rolls, a spare 10 plus the next roll, an open frame its pins; the last frame scores the
  pins of its own two or three rolls.
\<close>

fun officialTenPinTotal :: "frame list \<Rightarrow> int" where
  "officialTenPinTotal [] = 0"
| "officialTenPinTotal [f10] = sum_list f10"
| "officialTenPinTotal (f # rest) =
     (let later = concat rest in
      (if f = [10] then 10 + nullish (lookup later 0) 0 + nullish (lookup later 1) 0
       else if sum_list f = 10 then 10 + nullish (lookup later 0) 0
       else sum_list f)
      + officialTenPinTotal rest)"

text \<open>
  The bonus roll of a tenth frame that starts with a spare; 0 for any other frame.
\<close>

fun tenthSpareBonus :: "frame \<Rightarrow> int" where
  "tenthSpareBonus [a, b, c] = (if a \<noteq> 10 then c else 0)"
| "tenthSpareBonus _ = 0"

text \<open>
  A valid game in which no two-roll frame starts with 10: the invariant of an ordinary
  frame, as worded, admits the two rolls \<open>[10, 0]\<close>, which is not a frame of a real game.
\<close>

definition properGame :: "frame list \<Rightarrow> bool" where
  "properGame frames = (validGame frames \<and> [10, 0] \<notin> set frames)"

text \<open>All combinations of the three candidate lists that score the target, in order.\<close>

definition allMatches :: "count_state \<Rightarrow> solution list" where
  "allMatches st = filter (matches st) (combos (f8List st) (f9List st) (f10List st))"

text \<open>
  A page state with frames 1 to 9 entered as gutters, frame 10 free, target 5, cap 1 and
  ranking switched off.
\<close>

definition exampleState :: count_state where
  "exampleState =
     \<lparr> target = 5, parsedFirst10 = replicate 7 [0, 0] @ [[0, 0], [0, 0], []],
       solutions = [], previewScore = None, limit = 1, preferRealism = False,
       forbidFirstZero = True \<rparr>"

text \<open>
  The page state of scenario 2 of the specification: seven gutter frames, frames 8 to 10
  free, target 0, the default cap 50.
\<close>

definition scenario2State :: "bool \<Rightarrow> count_state" where
  "scenario2State forbid =
     \<lparr> target = 0, parsedFirst10 = replicate 7 [0, 0] @ [[], [], []],
       solutions = [], previewScore = None, limit = 50, preferRealism = True,
       forbidFirstZero = forbid \<rparr>"

text \<open>Seven strikes entered, frames 8 to 10 free, and the target 301.\<close>

definition scenario4State :: count_state where
  "scenario4State =
     \<lparr> target = 301, parsedFirst10 = replicate 7 [10] @ [[], [], []],
       solutions = [], previewScore = None, limit = 50, preferRealism = True,
       forbidFirstZero = True \<rparr>"

text \<open>Frames 1 to 9 entered as gutters, frame 10 free, target 5, ranking switched on.\<close>

definition rankedState :: count_state where
  "rankedState =
     \<lparr> target = 5, parsedFirst10 = replicate 7 [0, 0] @ [[0, 0], [0, 0], []],
       solutions = [], previewScore = None, limit = 50, preferRealism = True,
       forbidFirstZero = True \<rparr>"

section \<open>The scoring loop\<close>

declare scoreLoop.simps [simp del]

declare midsLoop.simps [simp del]

lemma roll_range:
  assumes "rollsOK rolls"
  shows "0 \<le> nullish (lookup rolls i) 0 \<and> nullish (lookup rolls i) 0 \<le> 10"
  using assms by (auto simp: rollsOK_def nullish_def lookup_def list_all_length)

lemma frameBody_range:
  assumes ok: "rollsOK rolls"
  shows "score \<le> snd (frameBody rolls frame (i, score))
         \<and> snd (frameBody rolls frame (i, score)) \<le> score + 30"
proof -
  note r0 = roll_range [OF ok, of i] and r1 = roll_range [OF ok, of "i + 1"]
    and r2 = roll_range [OF ok, of "i + 2"]
  show ?thesis
    using r0 r1 r2 by (auto simp: frameBody_def Let_def)
qed

lemma scoreLoop_step:
  "frame \<le> 10 \<Longrightarrow>
   scoreLoop rolls frame st = scoreLoop rolls (frame + 1) (frameBody rolls frame st)"
  by (subst scoreLoop.simps) simp

lemma scoreLoop_range:
  "rollsOK rolls \<Longrightarrow> frame \<le> 11 \<Longrightarrow>
   snd st \<le> snd (snd (scoreLoop rolls frame st))
   \<and> snd (snd (scoreLoop rolls frame st)) \<le> snd st + 30 * (11 - int frame)"
proof (induction rolls frame st rule: scoreLoop.induct)
  case (1 rolls frame st)
  note ok = "1.prems"(1)
  show ?case
  proof (cases "frame \<le> 10")
    case True
    obtain i s where st: "st = (i, s)" by (cases st)
    let ?st1 = "frameBody rolls frame st"
    have ih: "snd ?st1 \<le> snd (snd (scoreLoop rolls (frame + 1) ?st1))
         \<and> snd (snd (scoreLoop rolls (frame + 1) ?st1))
            \<le> snd ?st1 + 30 * (11 - int (frame + 1))"
      using "1.IH" [OF True ok] True by simp
    have b: "s \<le> snd ?st1 \<and> snd ?st1 \<le> s + 30"
      using frameBody_range [OF ok, of s frame i] st by simp
    have eq: "snd (snd (scoreLoop rolls frame st))
        = snd (snd (scoreLoop rolls (frame + 1) ?st1))"
      by (simp add: scoreLoop_step [OF True])
    have "int (frame + 1) = int frame + 1" by simp
    with ih b eq show ?thesis unfolding st snd_conv by auto
  next
    case False
    with "1.prems" have "frame = 11" by simp
    then show ?thesis by (subst scoreLoop.simps, subst (2) scoreLoop.simps) simp
  qed
qed

lemma scoreLoop_unroll:
  "scoreLoop rolls 1 st =
     (11, frameBody rolls 10 (frameBody rolls 9 (frameBody rolls 8 (frameBody rolls 7
          (frameBody rolls 6 (frameBody rolls 5 (frameBody rolls 4 (frameBody rolls 3
          (frameBody rolls 2 (frameBody rolls 1 st))))))))))"
  by (simp add: scoreLoop.simps eval_nat_numeral)

lemma scoreGame_snd: "scoreGame frames = snd (snd (scoreLoop (concat frames) 1 (0, 0)))"
  by (simp add: scoreGame_def split: prod.splits)

lemma scoreGame_range:
  assumes "rollsOK (concat frames)"
  shows "0 \<le> scoreGame frames \<and> scoreGame frames \<le> 300"
  using scoreLoop_range [OF assms, of 1 "(0, 0)"]
  by (simp add: scoreGame_snd)

section \<open>The nested loops of the search\<close>

lemma stopAt_test: "0 < k \<Longrightarrow> (lmt * 3 \<le> int k) = (stopAt lmt \<le> k)"
  by (auto simp: stopAt_def)

lemma collected_Nil: "length sols < n \<Longrightarrow> collected n sols [] = (sols, False)"
  by (simp add: collected_def)

lemma collected_append:
  "length sols < n \<Longrightarrow>
   collected n sols (xs @ ys) =
     (case collected n sols xs of
        (sols1, True) \<Rightarrow> (sols1, True)
      | (sols1, False) \<Rightarrow> collected n sols1 ys)"
  by (cases "n \<le> length sols + length xs") (auto simp: collected_def min_def)

lemma collected_inv:
  "length sols < n \<Longrightarrow> collected n sols xs = (sols1, False) \<Longrightarrow> length sols1 < n"
  by (auto simp: collected_def)

lemma loop10_collected:
  "length sols < stopAt lmt \<Longrightarrow>
   loop10 prefix tgt lmt f8 f9 l10 sols =
     collected (stopAt lmt) sols (filter (hit prefix tgt) (map (\<lambda>f10. (f8, f9, f10)) l10))"
proof (induction l10 arbitrary: sols)
  case Nil
  then show ?case by (simp add: collected_def)
next
  case (Cons f10 rest)
  show ?case
  proof (cases "scoreGame (prefix @ [f8, f9, f10]) = tgt")
    case False
    then show ?thesis using Cons by (simp add: hit_def)
  next
    case True
    show ?thesis
    proof (cases "lmt * 3 \<le> int (length (sols @ [(f8, f9, f10)]))")
      case stop: True
      then have le: "stopAt lmt \<le> Suc (length sols)"
        using stopAt_test [of "Suc (length sols)" lmt] by simp
      with Cons.prems have "stopAt lmt - length sols = Suc 0" by simp
      then show ?thesis using True stop le
        by (simp add: hit_def collected_def)
    next
      case go: False
      then have lt: "length (sols @ [(f8, f9, f10)]) < stopAt lmt"
        using stopAt_test [of "Suc (length sols)" lmt] by simp
      then obtain k where k: "stopAt lmt - length sols = Suc k"
        by (cases "stopAt lmt - length sols") auto
      then have "stopAt lmt - Suc (length sols) = k" by simp
      then show ?thesis using True go Cons.IH [OF lt] k
        by (simp add: hit_def collected_def Let_def)
    qed
  qed
qed

lemma loop9_collected:
  "length sols < stopAt lmt \<Longrightarrow>
   loop9 prefix tgt lmt f8 l9 l10 sols =
     collected (stopAt lmt) sols
       (filter (hit prefix tgt) (concat (map (\<lambda>f9. map (\<lambda>f10. (f8, f9, f10)) l10) l9)))"
proof (induction l9 arbitrary: sols)
  case Nil
  then show ?case by (simp add: collected_Nil)
next
  case (Cons f9 rest)
  show ?case
    using Cons.prems Cons.IH collected_inv [OF Cons.prems]
    by (simp add: loop10_collected collected_append split: prod.splits bool.splits)
qed

lemma loop8_collected:
  "length sols < stopAt lmt \<Longrightarrow>
   loop8 prefix tgt lmt l8 l9 l10 sols =
     collected (stopAt lmt) sols (filter (hit prefix tgt) (combos l8 l9 l10))"
proof (induction l8 arbitrary: sols)
  case Nil
  then show ?case by (simp add: collected_Nil combos_def)
next
  case (Cons f8 rest)
  show ?case
    using Cons.prems Cons.IH collected_inv [OF Cons.prems]
    by (simp add: loop9_collected collected_append combos_def split: prod.splits bool.splits)
qed

lemma enumerate_sols_collected:
  "enumerate_sols st =
     collected (stopAt (limit st)) []
       (filter (matches st) (combos (f8List st) (f9List st) (f10List st)))"
proof -
  have "length ([] :: solution list) < stopAt (limit st)" by (simp add: stopAt_def)
  then show ?thesis
    unfolding enumerate_sols_def by (simp add: loop8_collected matches_def [abs_def])
qed

section \<open>Facts about the candidate pools\<close>

lemma pools_valid:
  "list_all validOrdinary generateNormalFrameCandidates_NoFilter"
  "list_all validOrdinary generateNormalFrameCandidates_FilterFirstZero"
  "list_all validTenth generateTenthFrameCandidates_NoFilter"
  "list_all validTenth generateTenthFrameCandidates_FilterFirstZero"
  unfolding generateNormalFrameCandidates_NoFilter_def
    generateNormalFrameCandidates_FilterFirstZero_def
    generateTenthFrameCandidates_NoFilter_def
    generateTenthFrameCandidates_FilterFirstZero_def
  by code_simp+

lemma filtered_first_roll:
  "list_all (\<lambda>f. 1 \<le> nullish (lookup f 0) 0) NORMAL_CAND_FILTER"
  "list_all (\<lambda>f. 1 \<le> nullish (lookup f 0) 0) TENTH_CAND_FILTER"
  unfolding NORMAL_CAND_FILTER_def TENTH_CAND_FILTER_def
    generateNormalFrameCandidates_FilterFirstZero_def
    generateTenthFrameCandidates_FilterFirstZero_def
  by code_simp+

lemma gutter_once:
  "filter (\<lambda>f. f = [0, 0]) generateNormalFrameCandidates_NoFilter = [[0, 0]]"
  "filter (\<lambda>f. f = [0, 0]) generateTenthFrameCandidates_NoFilter = [[0, 0]]"
  unfolding generateNormalFrameCandidates_NoFilter_def
    generateTenthFrameCandidates_NoFilter_def
  by code_simp+

lemma validOrdinary_rollsOK: "validOrdinary f \<Longrightarrow> rollsOK f"
  by (induction f rule: validOrdinary.induct) (auto simp: rollsOK_def)

lemma validTenth_rollsOK: "validTenth f \<Longrightarrow> rollsOK f"
  by (induction f rule: validTenth.induct) (auto simp: rollsOK_def split: if_splits)

lemma frameBody_zero:
  assumes ok: "rollsOK rolls" and z: "snd (frameBody rolls frame (i, s)) = s"
  shows "frameBody rolls frame (i, s) = (i + 2, s)
         \<and> nullish (lookup rolls i) 0 = 0 \<and> nullish (lookup rolls (i + 1)) 0 = 0"
proof -
  note r0 = roll_range [OF ok, of i] and r1 = roll_range [OF ok, of "i + 1"]
    and r2 = roll_range [OF ok, of "i + 2"]
  show ?thesis
    using r0 r1 r2 z by (auto simp: frameBody_def Let_def split: if_splits)
qed

lemma scoreLoop_zero:
  "rollsOK rolls \<Longrightarrow> frame \<le> 11 \<Longrightarrow> snd (snd (scoreLoop rolls frame st)) = snd st \<Longrightarrow>
   k < 2 * (11 - frame) \<Longrightarrow> nullish (lookup rolls (fst st + k)) 0 = 0"
proof (induction rolls frame st arbitrary: k rule: scoreLoop.induct)
  case (1 rolls frame st)
  note ok = "1.prems"(1)
  show ?case
  proof (cases "frame \<le> 10")
    case True
    obtain i s where st: "st = (i, s)" by (cases st)
    let ?st1 = "frameBody rolls frame st"
    have eq: "snd (snd (scoreLoop rolls (frame + 1) ?st1)) = s"
      using "1.prems"(3) by (simp add: scoreLoop_step [OF True] st)
    have up: "snd ?st1 \<le> snd (snd (scoreLoop rolls (frame + 1) ?st1))"
      using scoreLoop_range [OF ok, of "frame + 1" ?st1] True by simp
    have b: "s \<le> snd ?st1"
      using frameBody_range [OF ok, of s frame i] st by simp
    from eq up b have same: "snd (frameBody rolls frame (i, s)) = s" by (simp add: st)
    note fz = frameBody_zero [OF ok same]
    show ?thesis
    proof (cases "k < 2")
      case True
      then have "k = 0 \<or> k = 1" by auto
      then show ?thesis using fz st by auto
    next
      case False
      then obtain k' where k': "k = k' + 2" by (metis add.commute le_Suc_ex not_less)
      have "snd (snd (scoreLoop rolls (frame + 1) ?st1)) = snd ?st1"
        using eq same st by simp
      moreover have "k' < 2 * (11 - (frame + 1))" using "1.prems"(4) k' True by simp
      ultimately have "nullish (lookup rolls (fst ?st1 + k')) 0 = 0"
        using "1.IH" [OF True ok] True by simp
      then show ?thesis using fz st k' by (simp add: add.commute add.left_commute)
    qed
  next
    case False
    with "1.prems" show ?thesis by simp
  qed
qed

lemma scoreGame_zero:
  assumes "rollsOK (concat frames)" "scoreGame frames = 0" "k < 20"
  shows "nullish (lookup (concat frames) k) 0 = 0"
  using scoreLoop_zero [OF assms(1), of 1 "(0, 0)" k] assms(2,3)
  by (simp add: scoreGame_snd)

section \<open>A gutter prefix and the target 0\<close>

lemma lookup_append_shift: "lookup (xs @ ys) (length xs + k) = lookup ys k"
  by (simp add: lookup_def nth_append)

lemma ordinary_zero:
  assumes "validOrdinary f" "nullish (lookup (f @ rest) 0) 0 = 0"
    "nullish (lookup (f @ rest) 1) 0 = 0"
  shows "f = [0, 0]"
  using assms
  by (induction f rule: validOrdinary.induct) (auto simp: lookup_def nullish_def)

lemma tenth_zero:
  assumes "validTenth f" "nullish (lookup (f @ rest) 0) 0 = 0"
    "nullish (lookup (f @ rest) 1) 0 = 0"
  shows "f = [0, 0]"
  using assms
  by (induction f rule: validTenth.induct) (auto simp: lookup_def nullish_def split: if_splits)

lemma gutter_game_zero:
  "scoreGame (replicate 7 [0, 0] @ [[0, 0], [0, 0], [0, 0]]) = 0"
  by code_simp

lemma concat_gutters: "concat (replicate 7 [0, 0] @ [f8, f9, f10]) = replicate 14 (0::int) @ f8 @ f9 @ f10"
  by (simp add: eval_nat_numeral)

lemma concat_gutters7: "concat (replicate 7 [0, 0]) = replicate 14 (0::int)"
  by (simp add: eval_nat_numeral)

lemma gutter_prefix_zero_iff:
  assumes v8: "validOrdinary f8" and v9: "validOrdinary f9" and v10: "validTenth f10"
  shows "hit (replicate 7 [0, 0]) 0 (f8, f9, f10)
         \<longleftrightarrow> f8 = [0, 0] \<and> f9 = [0, 0] \<and> f10 = [0, 0]"
proof
  assume h: "hit (replicate 7 [0, 0]) 0 (f8, f9, f10)"
  let ?rolls = "replicate 14 (0::int) @ f8 @ f9 @ f10"
  have ok: "rollsOK (concat (replicate 7 [0, 0] @ [f8, f9, f10]))"
    using validOrdinary_rollsOK [OF v8] validOrdinary_rollsOK [OF v9] validTenth_rollsOK [OF v10]
    unfolding concat_gutters by (auto simp: rollsOK_def list_all_iff)
  have z: "k < 20 \<Longrightarrow> nullish (lookup ?rolls k) 0 = 0" for k
    using scoreGame_zero [OF ok, of k] h by (simp add: hit_def concat_gutters7)
  have sh: "lookup ?rolls (14 + k) = lookup (f8 @ f9 @ f10) k" for k
    using lookup_append_shift [of "replicate 14 (0::int)" "f8 @ f9 @ f10" k] by simp
  have "nullish (lookup (f8 @ f9 @ f10) 0) 0 = 0" "nullish (lookup (f8 @ f9 @ f10) 1) 0 = 0"
    using z [of 14] z [of 15] sh [of 0] sh [of 1] by simp_all
  then have f8: "f8 = [0, 0]" using ordinary_zero [OF v8] by blast
  have sh2: "lookup (f8 @ f9 @ f10) (2 + k) = lookup (f9 @ f10) k" for k
    using lookup_append_shift [of f8 "f9 @ f10" k] f8 by simp
  have "nullish (lookup (f9 @ f10) 0) 0 = 0" "nullish (lookup (f9 @ f10) 1) 0 = 0"
    using z [of 16] z [of 17] sh [of 2] sh [of 3] sh2 [of 0] sh2 [of 1] by simp_all
  then have f9: "f9 = [0, 0]" using ordinary_zero [OF v9] by blast
  have sh3: "lookup (f9 @ f10) (2 + k) = lookup (f10 @ []) k" for k
    using lookup_append_shift [of f9 "f10" k] f9 by simp
  have "nullish (lookup (f10 @ []) 0) 0 = 0" "nullish (lookup (f10 @ []) 1) 0 = 0"
    using z [of 18] z [of 19] sh [of 4] sh [of 5] sh2 [of 2] sh2 [of 3] sh3 [of 0] sh3 [of 1]
    by simp_all
  then have "f10 = [0, 0]" using tenth_zero [OF v10] by blast
  with f8 f9 show "f8 = [0, 0] \<and> f9 = [0, 0] \<and> f10 = [0, 0]" by simp
next
  assume "f8 = [0, 0] \<and> f9 = [0, 0] \<and> f10 = [0, 0]"
  then show "hit (replicate 7 [0, 0]) 0 (f8, f9, f10)"
    using gutter_game_zero by (simp add: hit_def)
qed

lemma first_roll_no_zero:
  assumes v8: "rollsOK f8" and v9: "rollsOK f9" and v10: "rollsOK f10"
    and pos: "1 \<le> nullish (lookup f8 0) 0"
  shows "\<not> hit (replicate 7 [0, 0]) 0 (f8, f9, f10)"
proof
  assume h: "hit (replicate 7 [0, 0]) 0 (f8, f9, f10)"
  let ?rolls = "replicate 14 (0::int) @ f8 @ f9 @ f10"
  have ok: "rollsOK (concat (replicate 7 [0, 0] @ [f8, f9, f10]))"
    using v8 v9 v10 unfolding concat_gutters by (auto simp: rollsOK_def list_all_iff)
  have z: "nullish (lookup ?rolls 14) 0 = 0"
    using scoreGame_zero [OF ok, of 14] h by (simp add: hit_def concat_gutters7)
  have "lookup ?rolls (14 + 0) = lookup (f8 @ f9 @ f10) 0"
    using lookup_append_shift [of "replicate 14 (0::int)" "f8 @ f9 @ f10" 0] by simp
  with z have "nullish (lookup (f8 @ f9 @ f10) 0) 0 = 0" by simp
  with pos show False by (cases f8) (auto simp: lookup_def nullish_def)
qed

lemma combos_set:
  "set (combos l8 l9 l10) = {(a, b, c). a \<in> set l8 \<and> b \<in> set l9 \<and> c \<in> set l10}"
  by (auto simp: combos_def)

lemma filter_inner:
  "filter (\<lambda>s. P (fst s) \<and> Q (fst (snd s)) \<and> R (snd (snd s))) (map (\<lambda>f10. (f8, f9, f10)) l10)
   = (if P f8 \<and> Q f9 then map (\<lambda>f10. (f8, f9, f10)) (filter R l10) else [])"
  by (induction l10) auto

lemma filter_middle:
  "filter (\<lambda>s. P (fst s) \<and> Q (fst (snd s)) \<and> R (snd (snd s)))
     (concat (map (\<lambda>f9. map (\<lambda>f10. (f8, f9, f10)) l10) l9))
   = (if P f8 then concat (map (\<lambda>f9. map (\<lambda>f10. (f8, f9, f10)) (filter R l10)) (filter Q l9))
      else [])"
  by (induction l9) (auto simp: filter_inner)

lemma filter_combos:
  "filter (\<lambda>s. P (fst s) \<and> Q (fst (snd s)) \<and> R (snd (snd s))) (combos l8 l9 l10)
   = combos (filter P l8) (filter Q l9) (filter R l10)"
  unfolding combos_def by (induction l8) (auto simp: filter_middle)

lemma scenario2_pools:
  assumes "parsedFirst10 st = replicate 7 [0, 0] @ [[], [], []]"
  shows "prefixOf st = replicate 7 [0, 0]"
    and "f8List st = NORMAL_POOL st"
    and "f9List st = NORMAL_POOL st"
    and "f10List st = TENTH_POOL st"
    and "fallback st sols = sols"
  using assms
  by (simp_all add: prefixOf_def fixedOf_def f8List_def f9List_def f10List_def fixedAt_def
      fallback_def eval_nat_numeral nth_append)

lemma scenario2_filtered:
  assumes p: "parsedFirst10 st = replicate 7 [0, 0] @ [[], [], []]"
    and t: "target st = 0" and f: "forbidFirstZero st"
  shows "filter (matches st) (combos (f8List st) (f9List st) (f10List st)) = []"
proof -
  have "\<not> matches st sol"
    if "sol \<in> set (combos NORMAL_CAND_FILTER NORMAL_CAND_FILTER TENTH_CAND_FILTER)" for sol
  proof -
    obtain f8 f9 f10 where sol: "sol = (f8, f9, f10)" by (cases sol)
    from that sol have m: "f8 \<in> set NORMAL_CAND_FILTER" "f9 \<in> set NORMAL_CAND_FILTER"
      "f10 \<in> set TENTH_CAND_FILTER" by (simp_all add: combos_set)
    have "rollsOK f8" "rollsOK f9" "rollsOK f10"
      using m pools_valid(2,4) validOrdinary_rollsOK validTenth_rollsOK
      by (auto simp: list_all_iff NORMAL_CAND_FILTER_def TENTH_CAND_FILTER_def)
    moreover have "1 \<le> nullish (lookup f8 0) 0"
      using m(1) filtered_first_roll(1) by (auto simp: list_all_iff)
    ultimately show ?thesis
      using first_roll_no_zero [of f8 f9 f10] sol t scenario2_pools(1) [OF p]
      by (simp add: matches_def)
  qed
  then show ?thesis
    using f by (simp add: scenario2_pools [OF p] NORMAL_POOL_def TENTH_POOL_def filter_empty_conv)
qed

lemma scenario2_unfiltered:
  assumes p: "parsedFirst10 st = replicate 7 [0, 0] @ [[], [], []]"
    and t: "target st = 0" and f: "\<not> forbidFirstZero st"
  shows "filter (matches st) (combos (f8List st) (f9List st) (f10List st))
         = [([0, 0], [0, 0], [0, 0])]"
proof -
  let ?n = generateNormalFrameCandidates_NoFilter and ?t = generateTenthFrameCandidates_NoFilter
  let ?z = "\<lambda>f::frame. f = [0, 0]"
  have "filter (matches st) (combos ?n ?n ?t)
        = filter (\<lambda>s. ?z (fst s) \<and> ?z (fst (snd s)) \<and> ?z (snd (snd s))) (combos ?n ?n ?t)"
  proof (rule filter_cong [OF refl])
    fix sol assume "sol \<in> set (combos ?n ?n ?t)"
    obtain f8 f9 f10 where sol: "sol = (f8, f9, f10)" by (cases sol)
    from \<open>sol \<in> _\<close> sol have "validOrdinary f8" "validOrdinary f9" "validTenth f10"
      using pools_valid(1,3) by (auto simp: combos_set list_all_iff)
    then show "matches st sol = (?z (fst sol) \<and> ?z (fst (snd sol)) \<and> ?z (snd (snd sol)))"
      using gutter_prefix_zero_iff [of f8 f9 f10] sol t scenario2_pools(1) [OF p]
      by (simp add: matches_def)
  qed
  also have "\<dots> = combos [[0, 0]] [[0, 0]] [[0, 0]]"
    using filter_combos [of ?z ?z ?z ?n ?n ?t] by (simp only: gutter_once)
  also have "\<dots> = [([0, 0], [0, 0], [0, 0])]" by (simp add: combos_def)
  finally show ?thesis
    using f by (simp add: scenario2_pools [OF p] NORMAL_POOL_def TENTH_POOL_def)
qed

section \<open>Scores of the games the search builds\<close>

lemma prefixOf_take: "prefixOf st = take 7 (parsedFirst10 st)"
proof -
  have "map (\<lambda>fr. case fr of None \<Rightarrow> [] | Some f \<Rightarrow> f)
          (map (\<lambda>fr. if length fr \<noteq> 0 then Some fr else None) xs) = xs" for xs :: "frame list"
    by (induction xs) auto
  then show ?thesis
    by (simp add: prefixOf_def fixedOf_def take_map [symmetric])
qed

lemma fixedAt_fixedOf:
  "fixedAt (fixedOf st) i =
     (if i < length (parsedFirst10 st) \<and> parsedFirst10 st ! i \<noteq> []
      then Some (parsedFirst10 st ! i) else None)"
  by (simp add: fixedAt_def fixedOf_def)

lemma pool_rollsOK:
  "f \<in> set (NORMAL_POOL st) \<Longrightarrow> rollsOK f"
  "f \<in> set (TENTH_POOL st) \<Longrightarrow> rollsOK f"
  using pools_valid validOrdinary_rollsOK validTenth_rollsOK
  by (auto simp: NORMAL_POOL_def TENTH_POOL_def NORMAL_CAND_FILTER_def TENTH_CAND_FILTER_def
      list_all_iff split: if_splits)

lemma lists_rollsOK:
  assumes ok: "\<forall>f \<in> set (parsedFirst10 st). rollsOK f"
  shows "f \<in> set (f8List st) \<Longrightarrow> rollsOK f"
    and "f \<in> set (f9List st) \<Longrightarrow> rollsOK f"
    and "f \<in> set (f10List st) \<Longrightarrow> rollsOK f"
    and "f \<in> set (prefixOf st) \<Longrightarrow> rollsOK f"
  using ok pool_rollsOK [of f st]
  by (auto simp: f8List_def f9List_def f10List_def fixedAt_fixedOf prefixOf_take
      dest: in_set_takeD split: if_splits)

lemma rollsOK_concat: "rollsOK (concat fs) \<longleftrightarrow> (\<forall>f \<in> set fs. rollsOK f)"
  by (induction fs) (auto simp: rollsOK_def)

lemma game_in_range:
  assumes ok: "\<forall>f \<in> set (parsedFirst10 st). rollsOK f"
    and "f8 \<in> set (f8List st)" "f9 \<in> set (f9List st)" "f10 \<in> set (f10List st)"
  shows "0 \<le> scoreGame (prefixOf st @ [f8, f9, f10])
         \<and> scoreGame (prefixOf st @ [f8, f9, f10]) \<le> 300"
proof -
  have "rollsOK (concat (prefixOf st @ [f8, f9, f10]))"
    unfolding rollsOK_concat using lists_rollsOK [OF ok] assms(2-4) by auto
  then show ?thesis by (rule scoreGame_range)
qed

lemma fixed_in_lists:
  "fixedAt (fixedOf st) 7 = Some f \<Longrightarrow> f \<in> set (f8List st)"
  "fixedAt (fixedOf st) 8 = Some f \<Longrightarrow> f \<in> set (f9List st)"
  "fixedAt (fixedOf st) 9 = Some f \<Longrightarrow> f \<in> set (f10List st)"
  by (simp_all add: f8List_def f9List_def f10List_def)

lemma truncate_nonneg:
  "0 \<le> limit st \<Longrightarrow> truncateSols st sols = Inr (take (nat (limit st)) sols)"
  by (simp add: truncateSols_def)

lemma infeasible_target:
  assumes ok: "\<forall>f \<in> set (parsedFirst10 st). rollsOK f"
    and out: "target st < 0 \<or> 300 < target st" and l: "0 \<le> limit st"
  shows "searchSolutions st = Inr []"
proof -
  have no: "\<not> matches st sol"
    if "sol \<in> set (combos (f8List st) (f9List st) (f10List st))" for sol
  proof -
    obtain f8 f9 f10 where sol: "sol = (f8, f9, f10)" by (cases sol)
    with that have "f8 \<in> set (f8List st)" "f9 \<in> set (f9List st)" "f10 \<in> set (f10List st)"
      by (simp_all add: combos_set)
    from game_in_range [OF ok this] out sol show ?thesis
      by (auto simp: matches_def hit_def)
  qed
  then have "filter (matches st) (combos (f8List st) (f9List st) (f10List st)) = []"
    by (simp add: filter_empty_conv)
  then have e: "fst (enumerate_sols st) = []"
    by (simp add: enumerate_sols_collected collected_def)
  have "fallback st [] = []"
  proof (cases "fixedAt (fixedOf st) 7")
    case None then show ?thesis by (simp add: fallback_def)
  next
    case f8: (Some f8)
    show ?thesis
    proof (cases "fixedAt (fixedOf st) 8")
      case None then show ?thesis by (simp add: fallback_def f8)
    next
      case f9: (Some f9)
      show ?thesis
      proof (cases "fixedAt (fixedOf st) 9")
        case None then show ?thesis by (simp add: fallback_def f8 f9)
      next
        case f10: (Some f10)
        from game_in_range [OF ok fixed_in_lists(1) [OF f8] fixed_in_lists(2) [OF f9]
            fixed_in_lists(3) [OF f10]] out
        have "scoreGame (prefixOf st @ [f8, f9, f10]) \<noteq> target st" by auto
        then show ?thesis by (simp add: fallback_def f8 f9 f10)
      qed
    qed
  qed
  then show ?thesis
    using l by (simp add: searchSolutions_def e rankSols_def truncate_nonneg)
qed

lemma validInput_rollsOK:
  assumes "validInput ps"
  shows "\<forall>f \<in> set ps. rollsOK f"
proof
  fix f assume f: "f \<in> set ps"
  from assms have ne: "ps \<noteq> []" by (auto simp: validInput_def)
  then have "ps = butlast ps @ [last ps]" by simp
  then have "f \<in> set (butlast ps) \<or> f = last ps"
    using f by (metis Un_iff insert_iff list.set(2) set_append empty_iff list.set(1))
  then show "rollsOK f"
    using assms validOrdinary_rollsOK validTenth_rollsOK
    by (auto simp: validInput_def list_all_iff rollsOK_def)
qed

section \<open>The cap and the ranking flag\<close>

lemma limit_update_parts:
  "fixedOf (st\<lparr>limit := k\<rparr>) = fixedOf st"
  "NORMAL_POOL (st\<lparr>limit := k\<rparr>) = NORMAL_POOL st"
  "TENTH_POOL (st\<lparr>limit := k\<rparr>) = TENTH_POOL st"
  by (simp_all add: fixedOf_def NORMAL_POOL_def TENTH_POOL_def)

lemma limit_update_lists:
  "prefixOf (st\<lparr>limit := k\<rparr>) = prefixOf st"
  "f8List (st\<lparr>limit := k\<rparr>) = f8List st"
  "f9List (st\<lparr>limit := k\<rparr>) = f9List st"
  "f10List (st\<lparr>limit := k\<rparr>) = f10List st"
  by (simp_all add: prefixOf_def f8List_def f9List_def f10List_def limit_update_parts
      split: option.splits)

lemma limit_irrelevant:
  "allMatches (st\<lparr>limit := k\<rparr>) = allMatches st"
  "fallback (st\<lparr>limit := k\<rparr>) sols = fallback st sols"
  "rankSols (st\<lparr>limit := k\<rparr>) sols = rankSols st sols"
  by (simp_all add: allMatches_def matches_def [abs_def] fallback_def rankSols_def
      limit_update_parts limit_update_lists split: option.splits)

lemma rank_update_parts:
  "fixedOf (st\<lparr>preferRealism := b\<rparr>) = fixedOf st"
  "NORMAL_POOL (st\<lparr>preferRealism := b\<rparr>) = NORMAL_POOL st"
  "TENTH_POOL (st\<lparr>preferRealism := b\<rparr>) = TENTH_POOL st"
  by (simp_all add: fixedOf_def NORMAL_POOL_def TENTH_POOL_def)

lemma rank_update_lists:
  "prefixOf (st\<lparr>preferRealism := b\<rparr>) = prefixOf st"
  "f8List (st\<lparr>preferRealism := b\<rparr>) = f8List st"
  "f9List (st\<lparr>preferRealism := b\<rparr>) = f9List st"
  "f10List (st\<lparr>preferRealism := b\<rparr>) = f10List st"
  by (simp_all add: prefixOf_def f8List_def f9List_def f10List_def rank_update_parts
      split: option.splits)

lemma enumerate_sols_take:
  "enumerate_sols st =
     (take (stopAt (limit st)) (allMatches st), stopAt (limit st) \<le> length (allMatches st))"
  by (simp add: enumerate_sols_collected collected_def allMatches_def)

lemma enumerate_not_hit:
  "\<not> snd (enumerate_sols st) \<Longrightarrow> fst (enumerate_sols st) = allMatches st"
  by (simp add: enumerate_sols_take)


lemma tenthRealism_shift: "tenthRealism t s = s + tenthRealism t 0"
  by (simp add: tenthRealism_def Let_def)

section \<open>The scorer against the official total\<close>

lemma lookup_simps:
  "lookup (x # xs) 0 = Some x"
  "lookup (x # xs) (Suc n) = lookup xs n"
  "lookup [] n = None"
  by (simp_all add: lookup_def)

lemma lookup_shift0: "lookup (xs @ ys) (length xs) = lookup ys 0"
  using lookup_append_shift [of xs ys 0] by simp

lemma lookup_shift1: "lookup (xs @ ys) (Suc (length xs)) = lookup ys 1"
  using lookup_append_shift [of xs ys 1] by simp

lemma lookup_shift2: "lookup (xs @ ys) (Suc (Suc (length xs))) = lookup ys 2"
  using lookup_append_shift [of xs ys 2] by simp

lemma tenth_body:
  assumes "validTenth f"
  shows "snd (frameBody (pre @ f) 10 (length pre, s)) = s + sum_list f + tenthSpareBonus f"
  using assms
  by (induction f rule: validTenth.induct)
     (auto simp: frameBody_def Let_def lookup_shift0 lookup_shift1 lookup_shift2 lookup_simps
        nullish_def eval_nat_numeral)

lemma ordinary_body:
  assumes "validOrdinary f" "f \<noteq> [10, 0]" "frame \<noteq> 10"
  shows "frameBody (pre @ f @ later) frame (length pre, s)
         = (length pre + length f,
            s + (if f = [10] then 10 + nullish (lookup later 0) 0 + nullish (lookup later 1) 0
                 else if sum_list f = 10 then 10 + nullish (lookup later 0) 0
                 else sum_list f))"
  using assms
  by (induction f rule: validOrdinary.induct)
     (auto simp: frameBody_def Let_def lookup_shift0 lookup_shift1 lookup_shift2 lookup_simps
        nullish_def eval_nat_numeral)

lemma scoreLoop_done: "scoreLoop rolls 11 st = (11, st)"
  by (subst scoreLoop.simps) simp

lemma aligned:
  "fs \<noteq> [] \<Longrightarrow> length fs + frame = 11 \<Longrightarrow> list_all validOrdinary (butlast fs) \<Longrightarrow>
   [10, 0] \<notin> set fs \<Longrightarrow> validTenth (last fs) \<Longrightarrow>
   snd (snd (scoreLoop (pre @ concat fs) frame (length pre, s)))
   = s + officialTenPinTotal fs + tenthSpareBonus (last fs)"
proof (induction fs arbitrary: frame pre s)
  case Nil
  then show ?case by simp
next
  case (Cons f rest)
  show ?case
  proof (cases rest)
    case Nil
    with Cons.prems have fr: "frame = 10" and v: "validTenth f" by simp_all
    have "scoreLoop (pre @ f) 10 (length pre, s) = (11, frameBody (pre @ f) 10 (length pre, s))"
      by (simp add: scoreLoop_step scoreLoop_done)
    then show ?thesis using tenth_body [OF v, of pre s] Nil fr by simp
  next
    case (Cons g rest')
    with Cons.prems have fr: "frame \<le> 10" "frame \<noteq> 10" and v: "validOrdinary f" "f \<noteq> [10, 0]"
      by auto
    have step: "scoreLoop (pre @ concat (f # rest)) frame (length pre, s)
      = scoreLoop ((pre @ f) @ concat rest) (frame + 1)
          (length (pre @ f),
           s + (if f = [10] then 10 + nullish (lookup (concat rest) 0) 0
                                 + nullish (lookup (concat rest) 1) 0
                else if sum_list f = 10 then 10 + nullish (lookup (concat rest) 0) 0
                else sum_list f))"
      using ordinary_body [OF v fr(2), of pre "concat rest" s]
      by (simp add: scoreLoop_step [OF fr(1)])
    have ih: "snd (snd (scoreLoop ((pre @ f) @ concat rest) (frame + 1) (length (pre @ f), s')))
      = s' + officialTenPinTotal rest + tenthSpareBonus (last rest)" for s'
      using Cons.IH [of "frame + 1" "pre @ f" s'] Cons.prems Cons by simp
    show ?thesis
      unfolding step ih using Cons by (simp add: Let_def)
  qed
qed

lemma scoreGame_official_difference:
  assumes "properGame frames"
  shows "scoreGame frames = officialTenPinTotal frames + tenthSpareBonus (last frames)"
proof -
  from assms have "frames \<noteq> []" "length frames + 1 = 11"
    "list_all validOrdinary (butlast frames)" "[10, 0] \<notin> set frames" "validTenth (last frames)"
    by (auto simp: properGame_def validGame_def)
  from aligned [OF this, of "[]" 0] show ?thesis by (simp add: scoreGame_snd)
qed

section \<open>The handler\<close>

lemma handleCalculate_of_search:
  "searchSolutions st = Inr sols \<Longrightarrow>
   handleCalculate st = Inr (st\<lparr> previewScore := Some (preview st), solutions := sols \<rparr>)"
  by (simp add: handleCalculate_def)

lemma handleCalculate_solutions:
  "map_sum id solutions (handleCalculate st) = searchSolutions st"
  by (simp add: handleCalculate_def split: sum.splits)

lemma scenario2_preview:
  "parsedFirst10 st = replicate 7 [0, 0] @ [[], [], []] \<Longrightarrow> preview st = 0"
  by (simp add: preview_def fixedOf_def gutter_game_zero)

lemma scenario2_search:
  assumes p: "parsedFirst10 st = replicate 7 [0, 0] @ [[], [], []]"
    and t: "target st = 0" and l: "1 \<le> limit st"
  shows "searchSolutions st
         = Inr (if forbidFirstZero st then [] else [([0, 0], [0, 0], [0, 0])])"
proof (cases "forbidFirstZero st")
  case True
  have "enumerate_sols st = ([], False)"
    by (simp add: enumerate_sols_collected scenario2_filtered [OF p t True] collected_def
        stopAt_def)
  then show ?thesis using True l
    by (simp add: searchSolutions_def scenario2_pools(5) [OF p] rankSols_def truncateSols_def)
next
  case False
  have "1 \<le> stopAt (limit st)" by (simp add: stopAt_def)
  then have "fst (enumerate_sols st) = [([0, 0], [0, 0], [0, 0])]"
    by (simp add: enumerate_sols_collected scenario2_unfiltered [OF p t False] collected_def)
  then show ?thesis using False l
    by (simp add: searchSolutions_def scenario2_pools(5) [OF p] rankSols_def truncateSols_def)
qed

lemma search_cap_monotonic:
  assumes k: "0 \<le> k"
  shows "\<exists>xs ys. searchSolutions (st\<lparr>limit := k\<rparr>) = Inr xs
           \<and> searchSolutions (st\<lparr>limit := k + 1\<rparr>) = Inr ys
           \<and> length xs \<le> nat k
           \<and> (\<not> snd (enumerate_sols (st\<lparr>limit := k\<rparr>))
                \<and> \<not> snd (enumerate_sols (st\<lparr>limit := k + 1\<rparr>))
              \<longrightarrow> xs = take (nat k) ys)"
proof -
  let ?a = "st\<lparr>limit := k\<rparr>" and ?b = "st\<lparr>limit := k + 1\<rparr>"
  let ?ra = "rankSols st (fallback st (fst (enumerate_sols ?a)))"
  let ?rb = "rankSols st (fallback st (fst (enumerate_sols ?b)))"
  have a: "searchSolutions ?a = Inr (take (nat k) ?ra)"
    using k by (simp add: searchSolutions_def truncate_nonneg limit_irrelevant)
  have b: "searchSolutions ?b = Inr (take (nat (k + 1)) ?rb)"
    using k by (simp add: searchSolutions_def truncate_nonneg limit_irrelevant)
  have "take (nat k) ?ra = take (nat k) (take (nat (k + 1)) ?rb)"
    if "\<not> snd (enumerate_sols ?a)" "\<not> snd (enumerate_sols ?b)"
  proof -
    have "fst (enumerate_sols ?a) = allMatches st" "fst (enumerate_sols ?b) = allMatches st"
      using enumerate_not_hit [OF that(1)] enumerate_not_hit [OF that(2)]
      by (simp_all add: limit_irrelevant)
    then show ?thesis using k by (simp add: min_def)
  qed
  then show ?thesis using a b by simp
qed

section \<open>The claims of the specification\<close>

subsection \<open>The scorer\<close>

text \<open>
  C1. For a ten-frame game whose frames satisfy the frame invariants, \<open>scoreGame\<close>
  should return the official ten-pin total, a tenth-frame spare \<open>[a, 10 - a, c]\<close>
  contributing \<open>10 + c\<close>. The code adds the bonus roll of a tenth-frame spare twice:
  on the valid game of nine gutter frames and the tenth frame \<open>[5, 5, 5]\<close> it returns
  20, and the official total is 15. By \<open>scoreGame_official_difference\<close> this is the
  only difference: on every proper game \<open>scoreGame\<close> is the official total plus the
  bonus roll of a tenth-frame spare.
\<close>

theorem tenth_spare_bonus_counted_twice:
  "scoreGame (replicate 9 [0, 0] @ [[5, 5, 5]]) = 20
   \<and> officialTenPinTotal (replicate 9 [0, 0] @ [[5, 5, 5]]) = 15
   \<and> validGame (replicate 9 [0, 0] @ [[5, 5, 5]])"
  by code_simp

text \<open>
  C3. For every ten-frame game satisfying the frame invariants, \<open>scoreGame\<close> returns
  an integer between 0 and 300; the all-gutter game scores 0 and the all-strike game
  (nine strikes and the tenth frame \<open>[10, 10, 10]\<close>) scores 300.
\<close>

theorem scoreGame_bounds:
  assumes "validGame frames"
  shows "0 \<le> scoreGame frames \<and> scoreGame frames \<le> 300
         \<and> scoreGame (replicate 10 [0, 0]) = 0
         \<and> scoreGame (replicate 9 [10] @ [[10, 10, 10]]) = 300"
proof -
  have "validInput frames"
    using assms by (auto simp: validGame_def validInput_def list_all_iff)
  then have "rollsOK (concat frames)"
    using validInput_rollsOK rollsOK_concat by blast
  then have "0 \<le> scoreGame frames \<and> scoreGame frames \<le> 300" by (rule scoreGame_range)
  moreover have "scoreGame (replicate 10 [0, 0]) = 0" by code_simp
  moreover have "scoreGame (replicate 9 [10] @ [[10, 10, 10]]) = 300" by code_simp
  ultimately show ?thesis by simp
qed

theorem scoreGame_bounds_witness:
  "validGame (replicate 9 [10] @ [[10, 10, 10]])
   \<and> 0 \<le> scoreGame (replicate 9 [10] @ [[10, 10, 10]])
   \<and> scoreGame (replicate 9 [10] @ [[10, 10, 10]]) \<le> 300"
proof -
  have h: "validGame (replicate 9 [10] @ [[10, 10, 10]])" by code_simp
  from scoreGame_bounds [OF h] h show ?thesis by blast
qed

text \<open>
  C10. \<open>scoreGame\<close> is total on every list of frames: the loop runs its body for the
  frame numbers 1 to 10, once each, and stops with \<open>frame = 11\<close>; a roll read past the
  end of the rolls is 0. It returns a number for the empty list and for a list with an
  empty placeholder frame and a one-roll frame.
\<close>

theorem scoreGame_total:
  "scoreLoop (concat frames) 1 (0, 0)
     = (11, fold (frameBody (concat frames)) [1, 2, 3, 4, 5, 6, 7, 8, 9, 10] (0, 0))
   \<and> scoreGame frames
     = snd (fold (frameBody (concat frames)) [1, 2, 3, 4, 5, 6, 7, 8, 9, 10] (0, 0))
   \<and> nullish (lookup (concat frames) (length (concat frames) + k)) 0 = 0
   \<and> scoreGame [] = 0 \<and> scoreGame [[], [10], [3]] = 16"
proof -
  have ex: "scoreGame [] = 0" "scoreGame [[], [10], [3]] = 16" by code_simp+
  have loop: "scoreLoop (concat frames) 1 (0, 0)
     = (11, fold (frameBody (concat frames)) [1, 2, 3, 4, 5, 6, 7, 8, 9, 10] (0, 0))"
    using scoreLoop_unroll [of "concat frames" "(0, 0)"] by simp
  have "scoreGame frames
     = snd (fold (frameBody (concat frames)) [1, 2, 3, 4, 5, 6, 7, 8, 9, 10] (0, 0))"
    unfolding scoreGame_snd loop by simp
  moreover have "nullish (lookup (concat frames) (length (concat frames) + k)) 0 = 0"
    by (simp add: lookup_def nullish_def)
  ultimately show ?thesis using ex loop by blast
qed

subsection \<open>The candidate generators\<close>

text \<open>
  C5. The ordinary-frame candidate pool has 66 elements without the first-roll-zero
  filter and 55 elements with it.
\<close>

theorem ordinary_pool_sizes:
  "length generateNormalFrameCandidates_NoFilter = 66
   \<and> length generateNormalFrameCandidates_FilterFirstZero = 55"
  unfolding generateNormalFrameCandidates_NoFilter_def
    generateNormalFrameCandidates_FilterFirstZero_def
  by code_simp

text \<open>
  C7. Every frame produced by one of the four candidate generators satisfies the
  invariant of its position: an ordinary candidate is \<open>[10]\<close> or two rolls between 0
  and 10 with sum at most 10; a tenth-frame candidate is a two-roll open, a spare with a
  bonus roll between 0 and 10, or a strike with two bonus rolls whose sum is at most 10
  unless the first of them is 10.
\<close>

theorem generators_satisfy_invariants:
  "(\<forall>f \<in> set generateNormalFrameCandidates_NoFilter. validOrdinary f)
   \<and> (\<forall>f \<in> set generateNormalFrameCandidates_FilterFirstZero. validOrdinary f)
   \<and> (\<forall>f \<in> set generateTenthFrameCandidates_NoFilter. validTenth f)
   \<and> (\<forall>f \<in> set generateTenthFrameCandidates_FilterFirstZero. validTenth f)"
  using pools_valid by (simp add: list_all_iff)

theorem generators_satisfy_invariants_witness:
  "[9, 1, 10] \<in> set generateTenthFrameCandidates_FilterFirstZero \<and> validTenth [9, 1, 10]"
proof -
  have h: "[9, 1, 10] \<in> set generateTenthFrameCandidates_FilterFirstZero"
    unfolding generateTenthFrameCandidates_FilterFirstZero_def by code_simp
  from generators_satisfy_invariants h show ?thesis by blast
qed

subsection \<open>The realism ranking\<close>

text \<open>
  C6. For every tenth frame \<open>f10\<close>, the realism score of \<open>([10], [10], f10)\<close> is
  \<open>- 14\<close> plus the contribution of the tenth frame: the loop over frames 8 and 9
  gives \<open>- 3\<close> for each strike and \<open>- 4\<close> for the second strike following the
  first, and the check after the tenth frame gives \<open>- 4\<close> once more.
\<close>

theorem double_strike_realism:
  "scoreRealism ([10], [10], f10) = - 14 + tenthRealism f10 0
   \<and> midsLoop [[10], [10]] 0 0 = (- 3) + ((- 3) + (- 4))
   \<and> scoreRealism ([10], [10], f10) = midsLoop [[10], [10]] 0 0 + tenthRealism f10 0 + (- 4)"
proof -
  have m: "midsLoop [[10], [10]] 0 0 = - 10"
    by (simp add: midsLoop.simps midsBody_def isStrikeFrame_def WEIGHTS_def)
  have "scoreRealism ([10], [10], f10) = tenthRealism f10 (- 10) + (- 4)"
    by (simp add: scoreRealism_def m isStrikeFrame_def WEIGHTS_def Let_def)
  then show ?thesis using m tenthRealism_shift [of f10 "- 10"] by simp
qed

subsection \<open>The completion search\<close>

text \<open>
  C2, as the specification states it: with ranking disabled the search stops as soon as
  \<open>cap\<close> solutions are recorded. With ranking disabled and the cap 1 the loops record
  three solutions before they stop.
\<close>

theorem unranked_search_passes_cap:
  "\<not> preferRealism exampleState \<and> limit exampleState = 1
   \<and> fst (enumerate_sols exampleState)
     = [([0, 0], [0, 0], [1, 4]), ([0, 0], [0, 0], [2, 3]), ([0, 0], [0, 0], [3, 2])]"
  by code_simp

text \<open>
  C2, amended. The search stops enumerating as soon as the number of recorded solutions
  reaches 3 times the cap, whether ranking is enabled or not, for every cap: the loops
  record the first \<open>3 * limit\<close> matching combinations of the enumeration order and
  take the break exactly when there are that many. The bound is tested after a solution
  is recorded, so for a cap below 1 the search stops at the first recorded solution.
  The ranking flag does not change the enumeration.
\<close>

theorem early_stop_at_three_caps:
  "enumerate_sols st
     = (take (max 1 (nat (3 * limit st))) (allMatches st),
        max 1 (nat (3 * limit st)) \<le> length (allMatches st))
   \<and> (1 \<le> limit st \<longrightarrow> max 1 (nat (3 * limit st)) = nat (3 * limit st))
   \<and> enumerate_sols (st\<lparr>preferRealism := b\<rparr>) = enumerate_sols st"
proof -
  have "stopAt (limit st) = max 1 (nat (3 * limit st))"
    by (simp add: stopAt_def mult.commute)
  moreover have "enumerate_sols (st\<lparr>preferRealism := b\<rparr>) = enumerate_sols st"
    by (simp add: enumerate_sols_def rank_update_lists)
  ultimately show ?thesis by (simp add: enumerate_sols_take)
qed

theorem early_stop_at_three_caps_witness:
  "1 \<le> limit exampleState
   \<and> enumerate_sols exampleState = (take 3 (allMatches exampleState),
                                     3 \<le> length (allMatches exampleState))"
proof -
  have h: "limit exampleState = 1" by (simp add: exampleState_def)
  from early_stop_at_three_caps [of exampleState] h show ?thesis by simp
qed

text \<open>
  C4. With seven frames \<open>[0, 0]\<close> entered, frames 8 to 10 free and the target 0, the
  search returns no solution when \<open>forbidFirstZero\<close> is set, and exactly the solution
  with frames 8, 9 and 10 all equal to \<open>[0, 0]\<close> when it is not set (for every cap of
  at least 1, with and without ranking).
\<close>

theorem scenario2_gutter_prefix:
  assumes p: "parsedFirst10 st = replicate 7 [0, 0] @ [[], [], []]"
    and t: "target st = 0" and l: "1 \<le> limit st"
  shows "handleCalculate st
         = Inr (st\<lparr> previewScore := Some 0,
                    solutions := (if forbidFirstZero st then []
                                  else [([0, 0], [0, 0], [0, 0])]) \<rparr>)"
  using handleCalculate_of_search [OF scenario2_search [OF p t l]] scenario2_preview [OF p]
  by simp

theorem scenario2_gutter_prefix_witness:
  "handleCalculate (scenario2State True)
     = Inr ((scenario2State True)\<lparr> previewScore := Some 0, solutions := [] \<rparr>)
   \<and> handleCalculate (scenario2State False)
     = Inr ((scenario2State False)\<lparr> previewScore := Some 0,
                                      solutions := [([0, 0], [0, 0], [0, 0])] \<rparr>)"
  using scenario2_gutter_prefix [of "scenario2State True"]
    scenario2_gutter_prefix [of "scenario2State False"]
  by (simp add: scenario2State_def)

text \<open>
  C8. For every cap \<open>k\<close> (a non-negative integer), the search with cap \<open>k\<close> returns
  at most \<open>k\<close> solutions, and when the break at the overflow bound is taken in
  neither call, the sequence returned with cap \<open>k\<close> is the first \<open>k\<close> elements of
  the sequence returned with cap \<open>k + 1\<close>.
\<close>

theorem cap_monotonic:
  assumes k: "0 \<le> k"
  shows "\<exists>xs ys. map_sum id solutions (handleCalculate (st\<lparr>limit := k\<rparr>)) = Inr xs
           \<and> map_sum id solutions (handleCalculate (st\<lparr>limit := k + 1\<rparr>)) = Inr ys
           \<and> length xs \<le> nat k
           \<and> (\<not> snd (enumerate_sols (st\<lparr>limit := k\<rparr>))
                \<and> \<not> snd (enumerate_sols (st\<lparr>limit := k + 1\<rparr>))
              \<longrightarrow> xs = take (nat k) ys)"
  using search_cap_monotonic [OF k, of st] by (simp only: handleCalculate_solutions)

theorem cap_monotonic_witness:
  "\<not> snd (enumerate_sols (rankedState\<lparr>limit := 2\<rparr>))
   \<and> \<not> snd (enumerate_sols (rankedState\<lparr>limit := 3\<rparr>))
   \<and> (\<exists>xs ys. map_sum id solutions (handleCalculate (rankedState\<lparr>limit := 2\<rparr>)) = Inr xs
         \<and> map_sum id solutions (handleCalculate (rankedState\<lparr>limit := 3\<rparr>)) = Inr ys
         \<and> length xs \<le> 2 \<and> xs = take 2 ys)"
proof -
  have h2: "\<not> snd (enumerate_sols (rankedState\<lparr>limit := 2\<rparr>))" by code_simp
  have h3: "\<not> snd (enumerate_sols (rankedState\<lparr>limit := 3\<rparr>))" by code_simp
  from cap_monotonic [of 2 rankedState] h2 h3 show ?thesis by auto
qed

text \<open>
  C9. For ten slots whose entered frames satisfy the frame invariants, any of frames 8 to
  10 entered or free, either policy and any cap that is not negative, the search with a
  target below 0 or above 300 returns the empty sequence, and it returns it as a result,
  not as an error.
\<close>

theorem infeasible_target_empty:
  assumes v: "validInput (parsedFirst10 st)"
    and out: "target st < 0 \<or> 300 < target st" and l: "0 \<le> limit st"
  shows "handleCalculate st
         = Inr (st\<lparr> previewScore := Some (preview st), solutions := [] \<rparr>)"
  using handleCalculate_of_search [OF infeasible_target [OF validInput_rollsOK [OF v] out l]]
  by simp

theorem infeasible_target_empty_witness:
  "validInput (parsedFirst10 scenario4State) \<and> target scenario4State = 301
   \<and> handleCalculate scenario4State
     = Inr (scenario4State\<lparr> previewScore := Some (preview scenario4State),
                              solutions := [] \<rparr>)"
proof -
  have v: "validInput (parsedFirst10 scenario4State)" by code_simp
  have t: "target scenario4State = 301" by (simp add: scenario4State_def)
  have l: "0 \<le> limit scenario4State" by (simp add: scenario4State_def)
  from infeasible_target_empty [OF v _ l] v t show ?thesis by simp
qed


end
